theory Spec2Isabelle
  imports Complex_Main "HOL-Library.Word"
begin

unbundle bit_operations_syntax

section \<open>Python values and built-ins used by the sources\<close>

text \<open>
  Byte strings are HOL strings (a \<open>char\<close> is a byte). A Python \<open>str\<close> is represented
  by its UTF-8 encoding, so \<open>encode('utf-8')\<close> is the identity and \<open>decode('utf-8')\<close>
  succeeds, with the same bytes, exactly on well-formed UTF-8. Slicing, \<open>int()\<close> and
  \<open>split()\<close> are modelled for ASCII text, where a character is one byte; the theorems
  that depend on them say so in a hypothesis.
\<close>

datatype error =
    ValueError string
  | UnicodeDecodeError
  | NameError string
  | SerialTimeoutException

text \<open>\<open>UnicodeDecodeError\<close> is a subclass of \<open>ValueError\<close>: \<open>except ValueError\<close> catches both.\<close>

fun is_ValueError :: "error \<Rightarrow> bool" where
  "is_ValueError (ValueError m) = True"
| "is_ValueError UnicodeDecodeError = True"
| "is_ValueError (NameError m) = False"
| "is_ValueError SerialTimeoutException = False"

abbreviation LF :: char where
  "LF \<equiv> CHR 0x0A"

abbreviation ESC :: char where
  "ESC \<equiv> CHR 0x1B"

definition byte :: "char \<Rightarrow> nat" where
  "byte c = of_char c"

definition is_ascii :: "char \<Rightarrow> bool" where
  "is_ascii c = (byte c < 0x80)"

definition in_range :: "nat \<Rightarrow> nat \<Rightarrow> char \<Rightarrow> bool" where
  "in_range lo hi c = (lo \<le> byte c \<and> byte c \<le> hi)"

text \<open>Well-formed UTF-8, as the strict decoder accepts it (no overlong forms, no surrogates).\<close>

fun valid_utf8 :: "string \<Rightarrow> bool" where
  "valid_utf8 [] = True"
| "valid_utf8 (a # bs) =
     (if byte a < 0x80 then valid_utf8 bs
      else if in_range 0xC2 0xDF a then
        (case bs of
           b # r \<Rightarrow> in_range 0x80 0xBF b \<and> valid_utf8 r
         | _ \<Rightarrow> False)
      else if in_range 0xE0 0xEF a then
        (case bs of
           b # c # r \<Rightarrow>
             in_range (if byte a = 0xE0 then 0xA0 else 0x80)
                      (if byte a = 0xED then 0x9F else 0xBF) b
             \<and> in_range 0x80 0xBF c \<and> valid_utf8 r
         | _ \<Rightarrow> False)
      else if in_range 0xF0 0xF4 a then
        (case bs of
           b # c # d # r \<Rightarrow>
             in_range (if byte a = 0xF0 then 0x90 else 0x80)
                      (if byte a = 0xF4 then 0x8F else 0xBF) b
             \<and> in_range 0x80 0xBF c \<and> in_range 0x80 0xBF d \<and> valid_utf8 r
         | _ \<Rightarrow> False)
      else False)"

definition decode_utf8 :: "string \<Rightarrow> error + string" where
  "decode_utf8 bs = (if valid_utf8 bs then Inr bs else Inl UnicodeDecodeError)"

text \<open>Decimal digits, \<open>str(i)\<close> and the format specification \<open>{:0w}\<close> for an \<open>int\<close>.\<close>

fun digits_of :: "nat \<Rightarrow> string" where
  "digits_of n =
     (if n < 10 then [''0123456789'' ! n]
      else digits_of (n div 10) @ [''0123456789'' ! (n mod 10)])"

declare digits_of.simps [simp del]

definition str_int :: "int \<Rightarrow> string" where
  "str_int i = (if i < 0 then ''-'' else []) @ digits_of (nat \<bar>i\<bar>)"

definition format_zero :: "nat \<Rightarrow> int \<Rightarrow> string" where
  "format_zero w i =
     (let sign = (if i < 0 then ''-'' else []);
          ds = digits_of (nat \<bar>i\<bar>)
      in sign @ replicate (w - length sign - length ds) (CHR ''0'') @ ds)"

text \<open>
  \<open>int(s)\<close> for ASCII text: white space (tab, LF, VT, FF, CR, space) is stripped at both
  ends, one sign may follow, then decimal digits, with single underscores allowed
  between digits. Anything else raises \<open>ValueError\<close>.
\<close>

definition int_space :: "char \<Rightarrow> bool" where
  "int_space c = (in_range 0x09 0x0D c \<or> c = CHR '' '')"

definition is_digit :: "char \<Rightarrow> bool" where
  "is_digit c = in_range 0x30 0x39 c"

definition digit_val :: "char \<Rightarrow> nat" where
  "digit_val c = byte c - 0x30"

fun digits_value :: "nat \<Rightarrow> string \<Rightarrow> nat option" where
  "digits_value acc [] = Some acc"
| "digits_value acc [c] =
     (if is_digit c then Some (acc * 10 + digit_val c) else None)"
| "digits_value acc (c # d # cs) =
     (if is_digit c then digits_value (acc * 10 + digit_val c) (d # cs)
      else if c = CHR ''_'' \<and> is_digit d then digits_value acc (d # cs)
      else None)"

definition invalid_literal :: error where
  "invalid_literal = ValueError ''invalid literal for int() with base 10''"

definition py_int :: "string \<Rightarrow> error + int" where
  "py_int s =
     (let t = rev (dropWhile int_space (rev (dropWhile int_space s)));
          (neg, u) = (case t of
                        c # r \<Rightarrow> if c = CHR ''-'' then (True, r)
                                 else if c = CHR ''+'' then (False, r)
                                 else (False, t)
                      | [] \<Rightarrow> (False, t))
      in case u of
           [] \<Rightarrow> Inl invalid_literal
         | c # cs \<Rightarrow>
             if is_digit c then
               (case digits_value 0 u of
                  Some n \<Rightarrow> Inr (if neg then - int n else int n)
                | None \<Rightarrow> Inl invalid_literal)
             else Inl invalid_literal)"

text \<open>
  \<open>s.split()\<close> for ASCII text: the maximal runs of characters that are not white space,
  where white space is tab, LF, VT, FF, CR, FS, GS, RS, US and space.
\<close>

definition split_space :: "char \<Rightarrow> bool" where
  "split_space c = (in_range 0x09 0x0D c \<or> in_range 0x1C 0x1F c \<or> c = CHR '' '')"

fun split_from :: "string \<Rightarrow> string \<Rightarrow> string list" where
  "split_from cur [] = (if cur = [] then [] else [cur])"
| "split_from cur (c # cs) =
     (if split_space c
      then (if cur = [] then split_from [] cs else cur # split_from [] cs)
      else split_from (cur @ [c]) cs)"

definition py_split :: "string \<Rightarrow> string list" where
  "py_split s = split_from [] s"

text \<open>\<open>[int(x) for x in xs]\<close>: the first token that does not parse raises.\<close>

fun int_all :: "string list \<Rightarrow> error + int list" where
  "int_all [] = Inr []"
| "int_all (x # xs) =
     (case py_int x of
        Inl e \<Rightarrow> Inl e
      | Inr i \<Rightarrow> (case int_all xs of Inl e \<Rightarrow> Inl e | Inr is \<Rightarrow> Inr (i # is)))"

text \<open>\<open>sep.join(xs)\<close> and \<open>s.replace(a, b)\<close> for single characters \<open>a\<close>, \<open>b\<close>.\<close>

fun join :: "string \<Rightarrow> string list \<Rightarrow> string" where
  "join sep [] = []"
| "join sep [x] = x"
| "join sep (x # y # ys) = x @ sep @ join sep (y # ys)"

definition replace_char :: "char \<Rightarrow> char \<Rightarrow> string \<Rightarrow> string" where
  "replace_char a b s = map (\<lambda>c. if c = a then b else c) s"

section \<open>Device.py\<close>

subsection \<open>The serial port\<close>

text \<open>
  The port is the external collaborator \<open>serial.Serial\<close>. Its model holds the bytes that
  arrive from the board within the read timeout (\<open>rx\<close>), the bytes written so far
  (\<open>tx\<close>) and whether the next write times out. \<open>readline()\<close> returns the bytes up to
  and including the first LF, or everything that is there when no LF arrives in time.
\<close>

record port =
  rx :: string
  tx :: string
  write_times_out :: bool

fun take_line :: "string \<Rightarrow> string \<times> string" where
  "take_line [] = ([], [])"
| "take_line (c # cs) =
     (if c = LF then ([c], cs)
      else (let (l, r) = take_line cs in (c # l, r)))"

definition readline :: "port \<Rightarrow> port \<times> string" where
  "readline p = (let (l, r) = take_line (rx p) in (p\<lparr>rx := r\<rparr>, l))"

definition flushInput :: "port \<Rightarrow> port" where
  "flushInput p = p\<lparr>rx := []\<rparr>"

definition port_write :: "port \<Rightarrow> string \<Rightarrow> error + port" where
  "port_write p bs =
     (if write_times_out p then Inl SerialTimeoutException
      else Inr (p\<lparr>tx := tx p @ bs\<rparr>))"

subsection \<open>Instances and the class attribute\<close>

text \<open>
  \<open>__init__\<close> binds \<open>self.port\<close> and \<open>self.logfile\<close>, so these are instance attributes.
  \<open>cmds\<close> is bound once, in the class body, to one list; no method assigns
  \<open>self.cmds\<close>, so every \<open>self.cmds\<close> is that one list, which \<open>append\<close> and
  \<open>del self.cmds[:]\<close> change in place. Instances are named by natural numbers.
\<close>

record device =
  port :: port
  logfile :: "string option"

record device_heap =
  cmds :: "string list"
  instances :: "nat \<Rightarrow> device"

definition logfile_write :: "device \<Rightarrow> string \<Rightarrow> device" where
  "logfile_write d s =
     (case logfile d of
        None \<Rightarrow> d
      | Some f \<Rightarrow> d\<lparr>logfile := Some (f @ s)\<rparr>)"

text \<open>\<open>Device.__init__\<close> for the instance \<open>self\<close>, on the freshly opened port \<open>p\<close>.\<close>

definition Device_init :: "device_heap \<Rightarrow> nat \<Rightarrow> port \<Rightarrow> bool \<Rightarrow> device_heap" where
  "Device_init h self p log_arg =
     h\<lparr>instances := (instances h)
          (self := \<lparr>port = flushInput p, logfile = (if log_arg then Some [] else None)\<rparr>)\<rparr>"

subsection \<open>The transaction\<close>

definition msg_read_timeout :: string where
  "msg_read_timeout = ''Serial read timeout!''"

definition msg_device_error :: string where
  "msg_device_error = ''Device replied '' @ [CHR 0x27] @ ''ERROR'' @ [CHR 0x27]"

definition msg_no_ok :: string where
  "msg_no_ok = ''Device did not end with '' @ [CHR 0x27] @ ''OK'' @ [CHR 0x27]"

text \<open>
  \<open>readln\<close>, the local function of \<open>__transact\<close>. A line that does not end in LF is a
  timeout; it and a line that does not decode are \<open>ValueError\<close>s, on which the handler
  waits 200 ms (not modelled: the device model has no clock), discards the input buffer
  and re-raises. The timeout message also carries the configured timeout, which the
  model leaves out.
\<close>

definition readln :: "device \<Rightarrow> device \<times> (error + string)" where
  "readln d =
     (let (p, line) = readline (port d);
          d1 = d\<lparr>port := p\<rparr>;
          r = (if (if line = [] then [] else [last line]) \<noteq> [LF]
               then Inl (ValueError msg_read_timeout)
               else decode_utf8 (butlast line))
      in case r of
           Inr s \<Rightarrow> (d1, Inr s)
         | Inl e \<Rightarrow>
             if is_ValueError e then (d1\<lparr>port := flushInput (port d1)\<rparr>, Inl e)
             else (d1, Inl e))"

text \<open>
  \<open>Device.__transact\<close>. The handler of a write timeout calls \<open>log.exception\<close>, but no
  \<open>log\<close> is bound in that scope (only inside \<open>readln\<close>), so what propagates from it is
  a \<open>NameError\<close>.
\<close>

definition transact :: "device \<Rightarrow> string \<Rightarrow> device \<times> (error + string)" where
  "transact d cmd =
     (case port_write (port d) cmd of
        Inl e \<Rightarrow> (d, Inl (NameError ''log''))
      | Inr p \<Rightarrow>
          (let d1 = logfile_write (d\<lparr>port := p\<rparr>) cmd;
               (d2, r1) = readln d1
           in case r1 of
                Inl e \<Rightarrow> (d2, Inl e)
              | Inr response \<Rightarrow>
                  (let d3 = logfile_write d2 (response @ [LF])
                   in if response = ''OK'' then (d3, Inr response)
                      else if response = ''ERROR''
                      then (d3, Inl (ValueError msg_device_error))
                      else
                        (let val = response;
                             (d4, r2) = readln d3
                         in case r2 of
                              Inl e \<Rightarrow> (d4, Inl e)
                            | Inr response \<Rightarrow>
                                (let d5 = logfile_write d4 (response @ [LF])
                                 in if response = ''OK'' then (d5, Inr val)
                                    else (d5, Inl (ValueError msg_no_ok)))))))"

text \<open>The failure kinds of the spec, as the exceptions the code raises for them.\<close>

definition DeviceError :: error where
  "DeviceError = ValueError msg_device_error"

definition ProtocolViolation :: error where
  "ProtocolViolation = ValueError msg_no_ok"

definition ReadTimeout :: error where
  "ReadTimeout = ValueError msg_read_timeout"

subsection \<open>The public methods\<close>

text \<open>A method runs on the instance \<open>self\<close> of the heap and stores the instance back.\<close>

definition self_transact ::
  "device_heap \<Rightarrow> nat \<Rightarrow> string \<Rightarrow> device_heap \<times> (error + string)" where
  "self_transact h self cmd =
     (let (d, r) = transact (instances h self) cmd
      in (h\<lparr>instances := (instances h)(self := d)\<rparr>, r))"

definition version :: "device_heap \<Rightarrow> nat \<Rightarrow> device_heap \<times> (error + string)" where
  "version h self = self_transact h self (''VERS?'' @ [LF])"

text \<open>\<open>Device.meas\<close> returns an \<open>int\<close>, a list of \<open>int\<close>s or a \<open>str\<close>.\<close>

datatype meas_value = IntV int | ListV "int list" | StrV string

definition returning :: "('a \<Rightarrow> 'b) \<Rightarrow> error + 'a \<Rightarrow> error + 'b" where
  "returning f r = (case r of Inl e \<Rightarrow> Inl e | Inr x \<Rightarrow> Inr (f x))"

definition meas :: "device_heap \<Rightarrow> nat \<Rightarrow> int \<Rightarrow> device_heap \<times> (error + meas_value)" where
  "meas h self n =
     (let (h1, r) = self_transact h self (''MEAS'' @ format_zero 2 n @ ''?'' @ [LF])
      in case r of
           Inl e \<Rightarrow> (h1, Inl e)
         | Inr val \<Rightarrow>
             if n \<in> set [0, 1, 2, 3] then (h1, returning IntV (py_int (take 3 val)))
             else if n \<in> set [4, 5, 18] then (h1, returning IntV (py_int (take 4 val)))
             else if n \<in> set [6, 10, 11, 12, 13, 15, 17]
             then (h1, returning IntV (py_int (take 2 val)))
             else if n \<in> set [14, 16] then (h1, returning IntV (py_int (take 2 val)))
             else if n = 99 then (h1, returning ListV (int_all (py_split val)))
             else (h1, Inr (StrV (''n='' @ format_zero 2 n))))"

text \<open>\<open>Device.pwm(n, x = None)\<close>.\<close>

definition pwm ::
  "device_heap \<Rightarrow> nat \<Rightarrow> int \<Rightarrow> int option \<Rightarrow> device_heap \<times> (error + int)" where
  "pwm h self n x =
     (case x of
        None \<Rightarrow>
          (let cmd = ''PWM'' @ str_int n @ ''?'' @ [LF];
               (h1, r) = self_transact h self cmd
           in case r of
                Inl e \<Rightarrow> (h1, Inl e)
              | Inr val \<Rightarrow> (h1, py_int val))
      | Some x \<Rightarrow>
          (let cmd = ''PWM'' @ str_int n @ ''S'' @ format_zero 3 x @ [LF];
               (h1, r) = self_transact h self cmd
           in case r of
                Inl e \<Rightarrow> (h1, Inl e)
              | Inr val \<Rightarrow>
                  (let h2 = h1\<lparr>cmds := cmds h1 @ [cmd]\<rparr>
                   in (h2, py_int val))))"

text \<open>\<open>Device.commands\<close>.\<close>

definition commands :: "device_heap \<Rightarrow> nat \<Rightarrow> device_heap \<times> string" where
  "commands h self =
     (let c = replace_char LF (CHR '' '') (join '','' (cmds h))
      in (h\<lparr>cmds := []\<rparr>, c))"

subsection \<open>The board, and instances to run the methods on\<close>

text \<open>
  A line of text as the board sends it before the LF: no LF inside, well-formed UTF-8.
\<close>

definition text_line :: "string \<Rightarrow> bool" where
  "text_line v = (LF \<notin> set v \<and> valid_utf8 v)"

text \<open>The board's bytes arrive at the port of the instance \<open>self\<close>.\<close>

definition board_sends :: "device_heap \<Rightarrow> nat \<Rightarrow> string \<Rightarrow> device_heap" where
  "board_sends h self bs =
     h\<lparr>instances := (instances h)
          (self := (instances h self)
             \<lparr>port := (port (instances h self))\<lparr>rx := rx (port (instances h self)) @ bs\<rparr>\<rparr>)\<rparr>"

text \<open>
  An instance with a log file whose port has received \<open>bs\<close>; the heap after the class
  body has run and before any instance exists; the heap with the instances 0 and 1
  constructed on two ports.
\<close>

definition device_receiving :: "string \<Rightarrow> device" where
  "device_receiving bs =
     \<lparr>port = \<lparr>rx = bs, tx = [], write_times_out = False\<rparr>, logfile = Some []\<rparr>"

definition idle_port :: port where
  "idle_port = \<lparr>rx = [], tx = [], write_times_out = False\<rparr>"

definition no_devices :: device_heap where
  "no_devices = \<lparr>cmds = [], instances = (\<lambda>i. \<lparr>port = idle_port, logfile = None\<rparr>)\<rparr>"

definition two_devices :: device_heap where
  "two_devices = Device_init (Device_init no_devices 0 idle_port True) 1 idle_port True"


section \<open>IntervalScheduler.py\<close>

text \<open>
  The scheduler keeps two \<open>DotDict\<close>s, \<open>Heartbeat\<close> and \<open>Measurement\<close>, each with the
  keys \<open>INTERVAL\<close> and \<open>NEXTEVENT\<close>, and the attribute \<open>time_window\<close>. Python floats
  are idealised as reals. The clock is part of the state: \<open>time.time()\<close> reads the field
  \<open>clock\<close>, and \<open>time.sleep(d)\<close> advances it by exactly \<open>d\<close> (a deterministic clock
  on which nothing but sleeping takes time).
\<close>

record source =
  INTERVAL :: real
  NEXTEVENT :: real

record scheduler =
  Heartbeat :: source
  Measurement :: source
  time_window :: real
  clock :: real

definition HEARTBEAT :: int where
  "HEARTBEAT = 0x01"

definition MEASUREMENT :: int where
  "MEASUREMENT = 0x02"

definition time_sleep :: "real \<Rightarrow> scheduler \<Rightarrow> scheduler" where
  "time_sleep d s = s\<lparr>clock := clock s + d\<rparr>"

text \<open>\<open>IntervalScheduler.__init__\<close>, called when the clock reads \<open>t\<close>.\<close>

definition init_scheduler :: "real \<Rightarrow> real \<Rightarrow> real \<Rightarrow> real \<Rightarrow> scheduler" where
  "init_scheduler t heartbeat measurement tw =
     (let now = t in
      \<lparr>Heartbeat = \<lparr>INTERVAL = heartbeat, NEXTEVENT = now + heartbeat\<rparr>,
       Measurement = \<lparr>INTERVAL = measurement, NEXTEVENT = now + measurement\<rparr>,
       time_window = tw,
       clock = t\<rparr>)"

text \<open>\<open>IntervalScheduler.restart\<close>.\<close>

definition restart :: "scheduler \<Rightarrow> scheduler" where
  "restart s =
     (let now = clock s in
      s\<lparr>Heartbeat := (Heartbeat s)\<lparr>NEXTEVENT := now + INTERVAL (Heartbeat s)\<rparr>,
        Measurement := (Measurement s)\<lparr>NEXTEVENT := now + INTERVAL (Measurement s)\<rparr>\<rparr>)"

text \<open>
  \<open>IntervalScheduler.measurement(interval = None)\<close>: the argument is \<open>None\<close> to get and
  \<open>Some i\<close> to set; the interval is returned in both cases.
\<close>

definition measurement :: "scheduler \<Rightarrow> real option \<Rightarrow> scheduler \<times> real" where
  "measurement s interval =
     (let s1 = (case interval of
                  None \<Rightarrow> s
                | Some i \<Rightarrow> s\<lparr>Measurement := (Measurement s)\<lparr>INTERVAL := i\<rparr>\<rparr>)
      in (s1, INTERVAL (Measurement s1)))"

text \<open>
  \<open>IntervalScheduler.next\<close>. \<open>now\<close> is read once, before sleeping, and
  \<open>trigger_time\<close> is computed from that value after the sleep.
\<close>

definition sched_next :: "scheduler \<Rightarrow> scheduler \<times> int" where
  "sched_next s =
     (let now = clock s;
          next_event = min (NEXTEVENT (Heartbeat s)) (NEXTEVENT (Measurement s));
          sleep_duration = next_event - now;
          s1 = (if sleep_duration > 0 then time_sleep sleep_duration s else s);
          trigger_time = now + time_window s1;
          events = 0x00;
          (events, s2) =
            (if NEXTEVENT (Heartbeat s1) < trigger_time
             then (events OR HEARTBEAT,
                   s1\<lparr>Heartbeat := (Heartbeat s1)
                        \<lparr>NEXTEVENT := NEXTEVENT (Heartbeat s1) + INTERVAL (Heartbeat s1)\<rparr>\<rparr>)
             else (events, s1));
          (events, s3) =
            (if NEXTEVENT (Measurement s2) < trigger_time
             then (events OR MEASUREMENT,
                   s2\<lparr>Measurement := (Measurement s2)
                        \<lparr>NEXTEVENT := NEXTEVENT (Measurement s2) + INTERVAL (Measurement s2)\<rparr>\<rparr>)
             else (events, s2))
      in (s3, events))"

text \<open>The time at which a call of \<open>next\<close> returns, and the threshold the spec describes.\<close>

definition wake_time :: "scheduler \<Rightarrow> real" where
  "wake_time s = clock (fst (sched_next s))"

definition fired :: "int \<Rightarrow> int \<Rightarrow> bool" where
  "fired flag events = (events AND flag \<noteq> 0)"

section \<open>KeyboardInput.py\<close>

subsection \<open>The escape-sequence table\<close>

text \<open>
  The dictionary \<open>translate\<close>, from byte strings to key names, as an association list in
  the order of the source; its keys are distinct, so the lookup does not depend on it.
\<close>

definition translate_table :: "(string \<times> string) list" where
  "translate_table =
     [
      ([ESC], ''ESC''),
      (ESC # ''OP'', ''F1''),
      (ESC # ''[11~'', ''F1''),
      (ESC # ''OQ'', ''F2''),
      (ESC # ''[12~'', ''F2''),
      (ESC # ''OR'', ''F3''),
      (ESC # ''[13~'', ''F3''),
      (ESC # ''OS'', ''F4''),
      (ESC # ''[14~'', ''F4''),
      (ESC # ''[15~'', ''F5''),
      (ESC # ''[17~'', ''F6''),
      (ESC # ''[18~'', ''F7''),
      (ESC # ''[19~'', ''F8''),
      (ESC # ''[20~'', ''F9''),
      (ESC # ''[21~'', ''F10''),
      (ESC # ''[23~'', ''F11''),
      (ESC # ''[24~'', ''F12''),
      (ESC # ''[1~'', ''HOME''),
      (ESC # ''[2~'', ''INS''),
      (ESC # ''[3~'', ''DEL''),
      (ESC # ''[4~'', ''END''),
      (ESC # ''[5~'', ''PAGEUP''),
      (ESC # ''[6~'', ''PAGEDOWN''),
      (ESC # ''[A'', ''UP''),
      (ESC # ''[B'', ''DOWN''),
      (ESC # ''[C'', ''RIGHT''),
      (ESC # ''[D'', ''LEFT''),
      (ESC # ''OA'', ''UP''),
      (ESC # ''OB'', ''DOWN''),
      (ESC # ''OC'', ''RIGHT''),
      (ESC # ''OD'', ''LEFT''),
      ([CHR 0x7F], ''BACKSPACE''),
      ([LF], ''ENTER''),
      ([CHR 0x0D], ''ENTER''),
      ([CHR 0x09], ''TAB''),
      (ESC # ''[Z'', ''SHIFT-TAB'')
     ]"

definition translate :: "string \<Rightarrow> string option" where
  "translate bs = map_of translate_table bs"

subsection \<open>KeyboardInput\<close>

text \<open>
  \<open>raw\<close> is standard input reopened unbuffered and set non-blocking: the model holds the
  bytes the terminal has delivered and nobody has read yet. \<open>raw.read(n)\<close> returns
  \<open>None\<close> when there are none, and up to \<open>n\<close> of them otherwise; \<open>__has_data\<close>
  (a \<open>select\<close> with timeout 0) says whether there are any. The terminal is in cbreak
  mode and never at end of file. \<open>chunk\<close> is the look-ahead buffer.
\<close>

record keyboard =
  chunk :: "string option"
  raw :: string

definition raw_read :: "nat \<Rightarrow> keyboard \<Rightarrow> keyboard \<times> string option" where
  "raw_read n k =
     (if raw k = [] then (k, None)
      else (k\<lparr>raw := drop n (raw k)\<rparr>, Some (take n (raw k))))"

definition has_data :: "keyboard \<Rightarrow> bool" where
  "has_data k = (raw k \<noteq> [])"

text \<open>\<open>KeyboardInput.__iter__\<close>.\<close>

definition kb_iter :: "keyboard \<Rightarrow> keyboard" where
  "kb_iter k = (let (k1, c) = raw_read 5 k in k1\<lparr>chunk := c\<rparr>)"

text \<open>The loop \<open>while self.__has_data(): self.raw.read(1024)\<close>.\<close>

function drain :: "keyboard \<Rightarrow> keyboard" where
  "drain k = (if has_data k then drain (fst (raw_read 1024 k)) else k)"
  by pat_completeness auto
termination
  by (relation "measure (\<lambda>k. length (raw k))") (auto simp: has_data_def raw_read_def)

declare drain.simps [simp del]

text \<open>
  \<open>KeyboardInput.__next__\<close>; the result \<open>None\<close> is \<open>StopIteration\<close>. A single byte
  decodes as UTF-8 exactly when it is ASCII; the bare \<open>except\<close> turns any other into
  \<open>?\<close>.
\<close>

definition kb_next :: "keyboard \<Rightarrow> keyboard \<times> string option" where
  "kb_next k =
     (case chunk k of
        None \<Rightarrow> (k, None)
      | Some c \<Rightarrow>
          (case translate c of
             Some key \<Rightarrow> (k\<lparr>chunk := None\<rparr>, Some key)
           | None \<Rightarrow>
               if take 1 c = [ESC] then (drain k, None)
               else
                 (let ch = (case decode_utf8 (take 1 c) of
                              Inr s \<Rightarrow> s
                            | Inl e \<Rightarrow> ''?'');
                      k1 = k\<lparr>chunk := Some (drop 1 c)\<rparr>;
                      k2 = (if chunk k1 = Some []
                            then (let (k', r) = raw_read 5 k1 in k'\<lparr>chunk := r\<rparr>)
                            else k1)
                  in (k2, Some ch))))"

subsection \<open>InputConsumer\<close>

text \<open>
  The example consumer. \<open>process_input\<close> returns \<open>self.active\<close> on every path; the
  \<open>print\<close> calls are left out.
\<close>

record input_consumer =
  trigger :: string
  active :: bool
  buffer :: string
  ic_value :: string

definition InputConsumer :: "string \<Rightarrow> input_consumer" where
  "InputConsumer t = \<lparr>trigger = t, active = False, buffer = [], ic_value = []\<rparr>"

definition process_input :: "input_consumer \<Rightarrow> string \<Rightarrow> input_consumer \<times> bool" where
  "process_input self key =
     (if active self = False then
        (let self1 = (if key = trigger self then self\<lparr>active := True\<rparr> else self)
         in (self1, active self1))
      else if key \<in> set [''ESC'', trigger self] then
        (let self1 = self\<lparr>buffer := [], active := False\<rparr> in (self1, active self1))
      else
        (let self1 =
           (if key \<in> set [''DEL'', ''BACKSPACE''] then
              (if length (buffer self) > 0 then self\<lparr>buffer := butlast (buffer self)\<rparr>
               else self)
            else if key = ''ENTER'' then
              self\<lparr>ic_value := buffer self, buffer := [], active := False\<rparr>
            else if length key = 1 then self\<lparr>buffer := buffer self @ key\<rparr>
            else self)
         in (self1, active self1)))"

subsection \<open>InputConsumerManagement\<close>

text \<open>
  Consumers and managers are objects, named by natural numbers. The class body binds
  \<open>consumers\<close> to one list and \<open>active_consumer\<close> to \<open>None\<close>. \<open>add\<close> appends to
  \<open>self.consumers\<close>, which is the list of the class, in place. \<open>input\<close> assigns
  \<open>self.active_consumer\<close>, which creates or rebinds the attribute of the instance
  \<open>self\<close>; reading \<open>self.active_consumer\<close> finds the attribute of the instance when
  it has one and the attribute of the class otherwise.

  The behaviour of the consumers is the parameter \<open>proc\<close>: what \<open>process_input\<close> does
  to the consumer's own state and what it returns. Every call of \<open>process_input\<close> is
  recorded in \<open>calls\<close>, with the consumer, the key and the result.
\<close>

record 'c manager_heap =
  consumers :: "nat list"
  class_active_consumer :: "nat option"
  inst_active_consumer :: "nat \<Rightarrow> nat option option"
  objects :: "nat \<Rightarrow> 'c"
  calls :: "(nat \<times> string \<times> bool) list"

definition get_active_consumer :: "'c manager_heap \<Rightarrow> nat \<Rightarrow> nat option" where
  "get_active_consumer h self =
     (case inst_active_consumer h self of
        None \<Rightarrow> class_active_consumer h
      | Some v \<Rightarrow> v)"

definition set_active_consumer :: "'c manager_heap \<Rightarrow> nat \<Rightarrow> nat option \<Rightarrow> 'c manager_heap" where
  "set_active_consumer h self v =
     h\<lparr>inst_active_consumer := (inst_active_consumer h)(self := Some v)\<rparr>"

definition call_process_input ::
  "('c \<Rightarrow> string \<Rightarrow> 'c \<times> bool) \<Rightarrow> 'c manager_heap \<Rightarrow> nat \<Rightarrow> string
     \<Rightarrow> 'c manager_heap \<times> bool" where
  "call_process_input proc h consumer key =
     (let (c, r) = proc (objects h consumer) key
      in (h\<lparr>objects := (objects h)(consumer := c),
            calls := calls h @ [(consumer, key, r)]\<rparr>, r))"

text \<open>\<open>InputConsumerManagement.add\<close>.\<close>

definition add :: "'c manager_heap \<Rightarrow> nat \<Rightarrow> nat \<Rightarrow> 'c manager_heap" where
  "add h self consumer = h\<lparr>consumers := consumers h @ [consumer]\<rparr>"

text \<open>
  The loop \<open>for consumer in self.consumers\<close> of \<open>input\<close>, with its \<open>break\<close>: the
  result names the consumer that was assigned to \<open>self.active_consumer\<close>, if any.
\<close>

fun offer ::
  "('c \<Rightarrow> string \<Rightarrow> 'c \<times> bool) \<Rightarrow> 'c manager_heap \<Rightarrow> nat list \<Rightarrow> string
     \<Rightarrow> 'c manager_heap \<times> nat option" where
  "offer proc h [] key = (h, None)"
| "offer proc h (consumer # rest) key =
     (let (h1, r) = call_process_input proc h consumer key
      in if r then (h1, Some consumer) else offer proc h1 rest key)"

text \<open>\<open>InputConsumerManagement.input\<close>.\<close>

definition input ::
  "('c \<Rightarrow> string \<Rightarrow> 'c \<times> bool) \<Rightarrow> 'c manager_heap \<Rightarrow> nat \<Rightarrow> string \<Rightarrow> 'c manager_heap" where
  "input proc h self key =
     (case get_active_consumer h self of
        None \<Rightarrow>
          (let (h1, found) = offer proc h (consumers h) key
           in case found of
                None \<Rightarrow> h1
              | Some consumer \<Rightarrow> set_active_consumer h1 self (Some consumer))
      | Some a \<Rightarrow>
          (let (h1, r) = call_process_input proc h a key
           in if \<not> r then set_active_consumer h1 self None else h1))"

text \<open>A run of \<open>input\<close> on one manager, one key after the other.\<close>

definition inputs ::
  "('c \<Rightarrow> string \<Rightarrow> 'c \<times> bool) \<Rightarrow> 'c manager_heap \<Rightarrow> nat \<Rightarrow> string list
     \<Rightarrow> 'c manager_heap" where
  "inputs proc h self keys = foldl (\<lambda>h key. input proc h self key) h keys"

text \<open>
  A consumer is active when its latest \<open>process_input\<close> returned \<open>True\<close>. The heap
  after the class body has run, with the consumer objects \<open>objs\<close> and no manager yet.
\<close>

definition reports_active :: "(nat \<times> string \<times> bool) list \<Rightarrow> nat \<Rightarrow> bool" where
  "reports_active tr c =
     (let es = filter (\<lambda>e. fst e = c) tr
      in es \<noteq> [] \<and> snd (snd (last es)))"

definition no_managers :: "(nat \<Rightarrow> 'c) \<Rightarrow> 'c manager_heap" where
  "no_managers objs =
     \<lparr>consumers = [], class_active_consumer = None,
      inst_active_consumer = (\<lambda>i. None), objects = objs, calls = []\<rparr>"

text \<open>
  Mutual exclusion on the manager \<open>self\<close>: a consumer that is active is the one in the
  manager's slot. The manager 0 with two example consumers, 0 triggered by \<open>F1\<close> and
  1 triggered by \<open>F2\<close>.
\<close>

definition exclusive :: "'c manager_heap \<Rightarrow> nat \<Rightarrow> bool" where
  "exclusive h self =
     (\<forall>c. reports_active (calls h) c \<longrightarrow> get_active_consumer h self = Some c)"

definition two_consumers :: "input_consumer manager_heap" where
  "two_consumers =
     add (add (no_managers (\<lambda>i. InputConsumer (if i = 0 then ''F1'' else ''F2''))) 0 0) 0 1"

section \<open>Properties of the scheduler\<close>

lemma sched_next_clock:
  "clock (fst (sched_next s)) =
     max (clock s) (min (NEXTEVENT (Heartbeat s)) (NEXTEVENT (Measurement s)))"
  by (auto simp add: sched_next_def time_sleep_def Let_def split: prod.splits if_splits)

lemma sched_next_measurement_next:
  "NEXTEVENT (Measurement (fst (sched_next s))) =
     (if NEXTEVENT (Measurement s) < clock s + time_window s
      then NEXTEVENT (Measurement s) + INTERVAL (Measurement s)
      else NEXTEVENT (Measurement s))"
  by (simp add: sched_next_def time_sleep_def Let_def split: prod.splits if_splits)

text \<open>
  When every source is due no earlier than the calling time plus the window, the call
  sleeps until the first of them is due and then reports and reschedules nothing: the
  threshold does not move with the sleep.
\<close>

lemma sched_next_reports_nothing_after_sleep:
  assumes "clock s + time_window s \<le> min (NEXTEVENT (Heartbeat s)) (NEXTEVENT (Measurement s))"
  shows "snd (sched_next s) = 0"
    and "NEXTEVENT (Heartbeat (fst (sched_next s))) = NEXTEVENT (Heartbeat s)"
    and "NEXTEVENT (Measurement (fst (sched_next s))) = NEXTEVENT (Measurement s)"
  using assms
  by (auto simp add: sched_next_def time_sleep_def Let_def split: prod.splits if_splits)

text \<open>
  C2. \<open>next()\<close> sleeps until the minimum next-fire-time, but the firing threshold is not
  the wake time plus \<open>time_window\<close>: it is the time read before sleeping plus
  \<open>time_window\<close>. With the clock at 0, the heartbeat due at 10, the measurement due at 60
  and a window of 1, the call sleeps until 10 and returns no flag, although the
  heartbeat's next-fire-time 10 is below the wake time plus the window, 11; the heartbeat
  is not rescheduled either.
\<close>

theorem sched_next_stale_threshold:
  "sched_next \<lparr>Heartbeat = \<lparr>INTERVAL = 10, NEXTEVENT = 10\<rparr>,
               Measurement = \<lparr>INTERVAL = 60, NEXTEVENT = 60\<rparr>,
               time_window = 1, clock = 0\<rparr>
   = (\<lparr>Heartbeat = \<lparr>INTERVAL = 10, NEXTEVENT = 10\<rparr>,
       Measurement = \<lparr>INTERVAL = 60, NEXTEVENT = 60\<rparr>,
       time_window = 1, clock = 10\<rparr>, 0)
   \<and> wake_time \<lparr>Heartbeat = \<lparr>INTERVAL = 10, NEXTEVENT = 10\<rparr>,
                 Measurement = \<lparr>INTERVAL = 60, NEXTEVENT = 60\<rparr>,
                 time_window = 1, clock = 0\<rparr> = 10
   \<and> (10::real) < 10 + 1
   \<and> \<not> fired HEARTBEAT 0"
  by (simp add: wake_time_def sched_next_def time_sleep_def fired_def HEARTBEAT_def Let_def)

text \<open>
  C9. Calling the accessor with a new interval changes the measurement source's
  \<open>INTERVAL\<close> and nothing else: both next-fire-times, the heartbeat interval, the window
  and the clock are as before, and the new interval is returned. The next call of
  \<open>next()\<close> that reschedules the measurement source adds the new interval to the
  unchanged next-fire-time; a call that does not fire it leaves the next-fire-time alone.
\<close>

theorem measurement_set_only_interval:
  "measurement s (Some i) = (s\<lparr>Measurement := (Measurement s)\<lparr>INTERVAL := i\<rparr>\<rparr>, i)
   \<and> NEXTEVENT (Measurement (fst (measurement s (Some i)))) = NEXTEVENT (Measurement s)
   \<and> Heartbeat (fst (measurement s (Some i))) = Heartbeat s
   \<and> time_window (fst (measurement s (Some i))) = time_window s
   \<and> clock (fst (measurement s (Some i))) = clock s
   \<and> NEXTEVENT (Measurement (fst (sched_next (fst (measurement s (Some i)))))) =
       (if NEXTEVENT (Measurement s) < clock s + time_window s
        then NEXTEVENT (Measurement s) + i
        else NEXTEVENT (Measurement s))"
  by (simp add: sched_next_measurement_next) (simp add: measurement_def)

theorem measurement_set_only_interval_witness:
  "measurement (init_scheduler 0 1 60 1) (Some 5)
     = (\<lparr>Heartbeat = \<lparr>INTERVAL = 1, NEXTEVENT = 1\<rparr>,
         Measurement = \<lparr>INTERVAL = 5, NEXTEVENT = 60\<rparr>,
         time_window = 1, clock = 0\<rparr>, 5)
   \<and> NEXTEVENT (Measurement (fst (sched_next (fst (measurement
        ((init_scheduler 0 1 60 1)\<lparr>clock := 60\<rparr>) (Some 5)))))) = 65"
proof -
  let ?s = "init_scheduler 0 1 60 1"
  have a: "measurement ?s (Some 5)
             = (?s\<lparr>Measurement := (Measurement ?s)\<lparr>INTERVAL := 5\<rparr>\<rparr>, 5)"
    using measurement_set_only_interval [of ?s 5] by (rule conjunct1)
  have b: "NEXTEVENT (Measurement (fst (sched_next (fst (measurement
             (?s\<lparr>clock := 60\<rparr>) (Some 5)))))) =
           (if NEXTEVENT (Measurement (?s\<lparr>clock := 60\<rparr>))
                 < clock (?s\<lparr>clock := 60\<rparr>) + time_window (?s\<lparr>clock := 60\<rparr>)
            then NEXTEVENT (Measurement (?s\<lparr>clock := 60\<rparr>)) + 5
            else NEXTEVENT (Measurement (?s\<lparr>clock := 60\<rparr>)))"
    using measurement_set_only_interval [of "?s\<lparr>clock := 60\<rparr>" 5] by blast
  have c: "?s\<lparr>Measurement := (Measurement ?s)\<lparr>INTERVAL := 5\<rparr>\<rparr>
             = \<lparr>Heartbeat = \<lparr>INTERVAL = 1, NEXTEVENT = 1\<rparr>,
                Measurement = \<lparr>INTERVAL = 5, NEXTEVENT = 60\<rparr>,
                time_window = 1, clock = 0\<rparr>"
    by (simp add: init_scheduler_def)
  have d: "(if NEXTEVENT (Measurement (?s\<lparr>clock := 60\<rparr>))
                 < clock (?s\<lparr>clock := 60\<rparr>) + time_window (?s\<lparr>clock := 60\<rparr>)
            then NEXTEVENT (Measurement (?s\<lparr>clock := 60\<rparr>)) + 5
            else NEXTEVENT (Measurement (?s\<lparr>clock := 60\<rparr>))) = 65"
    by (simp add: init_scheduler_def)
  show ?thesis using a b c d by simp
qed


section \<open>Properties of the transaction engine\<close>

subsection \<open>Reading lines\<close>

lemma take_line_upto_LF:
  "LF \<notin> set v \<Longrightarrow> take_line (v @ LF # rest) = (v @ [LF], rest)"
  by (induction v) auto

lemma readln_text_line:
  assumes "rx (port d) = v @ LF # rest" and "text_line v"
  shows "readln d = (d\<lparr>port := (port d)\<lparr>rx := rest\<rparr>\<rparr>, Inr v)"
  using assms
  by (simp add: readln_def readline_def text_line_def take_line_upto_LF decode_utf8_def)

lemma text_line_OK: "text_line ''OK''"
  by (simp add: text_line_def byte_def)

lemma text_line_ERROR: "text_line ''ERROR''"
  by (simp add: text_line_def byte_def)

lemma logfile_write_port [simp]: "port (logfile_write d s) = port d"
  by (simp add: logfile_write_def split: option.splits)

lemma transact_single_OK:
  assumes "\<not> write_times_out (port d)" and "rx (port d) = ''OK'' @ LF # rest"
  shows "snd (transact d cmd) = Inr ''OK''"
proof -
  let ?d1 = "logfile_write (d\<lparr>port := (port d)\<lparr>tx := tx (port d) @ cmd\<rparr>\<rparr>) cmd"
  have "rx (port ?d1) = ''OK'' @ LF # rest" using assms by simp
  then have "readln ?d1 = (?d1\<lparr>port := (port ?d1)\<lparr>rx := rest\<rparr>\<rparr>, Inr ''OK'')"
    using text_line_OK by (rule readln_text_line)
  then show ?thesis using assms(1)
    by (simp add: transact_def port_write_def Let_def)
qed

lemma transact_single_ERROR:
  assumes "\<not> write_times_out (port d)" and "rx (port d) = ''ERROR'' @ LF # rest"
  shows "snd (transact d cmd) = Inl DeviceError"
proof -
  let ?d1 = "logfile_write (d\<lparr>port := (port d)\<lparr>tx := tx (port d) @ cmd\<rparr>\<rparr>) cmd"
  have "rx (port ?d1) = ''ERROR'' @ LF # rest" using assms by simp
  then have "readln ?d1 = (?d1\<lparr>port := (port ?d1)\<lparr>rx := rest\<rparr>\<rparr>, Inr ''ERROR'')"
    using text_line_ERROR by (rule readln_text_line)
  then show ?thesis using assms(1)
    by (simp add: transact_def port_write_def Let_def DeviceError_def)
qed

lemma transact_two_lines:
  assumes "\<not> write_times_out (port d)"
    and "rx (port d) = v @ LF # w @ LF # rest"
    and "text_line v" and "text_line w" and "v \<noteq> ''OK''" and "v \<noteq> ''ERROR''"
  shows "snd (transact d cmd) = (if w = ''OK'' then Inr v else Inl ProtocolViolation)"
proof -
  let ?d1 = "logfile_write (d\<lparr>port := (port d)\<lparr>tx := tx (port d) @ cmd\<rparr>\<rparr>) cmd"
  let ?d2 = "?d1\<lparr>port := (port ?d1)\<lparr>rx := w @ LF # rest\<rparr>\<rparr>"
  let ?d3 = "logfile_write ?d2 (v @ [LF])"
  have "rx (port ?d1) = v @ LF # w @ LF # rest" using assms by simp
  then have r1: "readln ?d1 = (?d2, Inr v)"
    using assms(3) by (rule readln_text_line)
  have "rx (port ?d3) = w @ LF # rest" by simp
  then have r2: "readln ?d3 = (?d3\<lparr>port := (port ?d3)\<lparr>rx := rest\<rparr>\<rparr>, Inr w)"
    using assms(4) by (rule readln_text_line)
  show ?thesis using assms(1,5,6) r1 r2
    by (simp add: transact_def port_write_def Let_def ProtocolViolation_def)
qed

text \<open>
  C3. When the write succeeds, \<open>__transact\<close> classifies the reply by the grammar: the
  single line \<open>OK\<close> returns \<open>OK\<close>; the single line \<open>ERROR\<close> raises the
  \<open>ValueError\<close> that stands for \<open>DeviceError\<close>; a value line (any line of text other than
  \<open>OK\<close> and \<open>ERROR\<close>) followed by the line \<open>OK\<close> returns the value; a value line
  followed by any other line of text raises the \<open>ValueError\<close> that stands for
  \<open>ProtocolViolation\<close>.
\<close>

theorem transact_reply_grammar:
  assumes "\<not> write_times_out (port d)"
  shows "(rx (port d) = ''OK'' @ LF # rest \<longrightarrow> snd (transact d cmd) = Inr ''OK'')
       \<and> (rx (port d) = ''ERROR'' @ LF # rest \<longrightarrow> snd (transact d cmd) = Inl DeviceError)
       \<and> (rx (port d) = v @ LF # ''OK'' @ LF # rest \<and> text_line v
            \<and> v \<noteq> ''OK'' \<and> v \<noteq> ''ERROR''
          \<longrightarrow> snd (transact d cmd) = Inr v)
       \<and> (rx (port d) = v @ LF # w @ LF # rest \<and> text_line v \<and> text_line w
            \<and> v \<noteq> ''OK'' \<and> v \<noteq> ''ERROR'' \<and> w \<noteq> ''OK''
          \<longrightarrow> snd (transact d cmd) = Inl ProtocolViolation)"
  using assms transact_single_OK [of d rest cmd] transact_single_ERROR [of d rest cmd]
    transact_two_lines [of d v "''OK''" rest cmd] transact_two_lines [of d v w rest cmd]
    text_line_OK
  by simp

theorem transact_reply_grammar_witness:
  "snd (transact (device_receiving (''OK'' @ [LF])) (''VERS?'' @ [LF])) = Inr ''OK''
   \<and> snd (transact (device_receiving (''ERROR'' @ [LF])) (''MEAS00?'' @ [LF])) = Inl DeviceError
   \<and> snd (transact (device_receiving (''VALUE'' @ [LF] @ ''OK'' @ [LF])) (''VERS?'' @ [LF]))
       = Inr ''VALUE''
   \<and> snd (transact (device_receiving (''VALUE'' @ [LF] @ ''JUNK'' @ [LF])) (''VERS?'' @ [LF]))
       = Inl ProtocolViolation"
proof -
  have a: "snd (transact (device_receiving (''OK'' @ [LF])) (''VERS?'' @ [LF])) = Inr ''OK''"
    using transact_reply_grammar [where d = "device_receiving (''OK'' @ [LF])" and rest = "[]"]
    by (simp add: device_receiving_def)
  have b: "snd (transact (device_receiving (''ERROR'' @ [LF])) (''MEAS00?'' @ [LF]))
             = Inl DeviceError"
    using transact_reply_grammar [where d = "device_receiving (''ERROR'' @ [LF])" and rest = "[]"]
    by (simp add: device_receiving_def)
  have c: "snd (transact (device_receiving (''VALUE'' @ [LF] @ ''OK'' @ [LF])) (''VERS?'' @ [LF]))
             = Inr ''VALUE''"
    using transact_reply_grammar [where d = "device_receiving (''VALUE'' @ [LF] @ ''OK'' @ [LF])"
        and v = "''VALUE''" and rest = "[]"]
    by (simp add: device_receiving_def text_line_def byte_def)
  have d: "snd (transact (device_receiving (''VALUE'' @ [LF] @ ''JUNK'' @ [LF])) (''VERS?'' @ [LF]))
             = Inl ProtocolViolation"
    using transact_reply_grammar [where d = "device_receiving (''VALUE'' @ [LF] @ ''JUNK'' @ [LF])"
        and v = "''VALUE''" and w = "''JUNK''" and rest = "[]"]
    by (simp add: device_receiving_def text_line_def byte_def)
  show ?thesis using a b c d by simp
qed

subsection \<open>Decoding measurements\<close>

lemma int_all_Inr_iff: "int_all xs = Inr ks \<longleftrightarrow> map py_int xs = map Inr ks"
proof (induction xs arbitrary: ks)
  case Nil
  then show ?case by auto
next
  case (Cons x xs)
  show ?case
  proof (cases "py_int x")
    case (Inl e)
    then show ?thesis by (cases ks) auto
  next
    case (Inr i)
    show ?thesis
    proof (cases "int_all xs")
      case (Inl e)
      then have "\<And>js. map py_int xs \<noteq> map Inr js" using Cons.IH by simp
      with Inl Inr show ?thesis by (cases ks) auto
    next
      case r: (Inr js)
      then have "map py_int xs = map Inr js" using Cons.IH by simp
      with r Inr show ?thesis by (cases ks) (auto simp: inj_on_def dest: map_inj_on)
    qed
  qed
qed


lemma snd_self_transact:
  "snd (self_transact h self cmd) = snd (transact (instances h self) cmd)"
  by (simp add: self_transact_def split: prod.splits)

lemma meas_unfold:
  "meas h self n =
     (case snd (self_transact h self (''MEAS'' @ format_zero 2 n @ ''?'' @ [LF])) of
        Inl e \<Rightarrow> (fst (self_transact h self (''MEAS'' @ format_zero 2 n @ ''?'' @ [LF])), Inl e)
      | Inr val \<Rightarrow>
         (fst (self_transact h self (''MEAS'' @ format_zero 2 n @ ''?'' @ [LF])),
          if n \<in> {0, 1, 2, 3} then returning IntV (py_int (take 3 val))
          else if n \<in> {4, 5, 18} then returning IntV (py_int (take 4 val))
          else if n \<in> {6, 10, 11, 12, 13, 14, 15, 16, 17}
          then returning IntV (py_int (take 2 val))
          else if n = 99 then returning ListV (int_all (py_split val))
          else Inr (StrV (''n='' @ format_zero 2 n))))"
  unfolding meas_def
  by (cases "self_transact h self (''MEAS'' @ format_zero 2 n @ ''?'' @ [LF])")
     (simp split: sum.splits)

lemma returning_ListV_iff:
  "returning ListV (int_all xs) = Inr (ListV ks) \<longleftrightarrow> map py_int xs = map Inr ks"
  by (simp add: returning_def int_all_Inr_iff [symmetric] split: sum.splits)

lemma returning_Inl_iff: "returning f r = Inl e \<longleftrightarrow> r = Inl e"
  by (simp add: returning_def split: sum.splits)

text \<open>
  C4. When the transaction of \<open>meas(n)\<close> returns the value line \<open>v\<close> (ASCII text),
  the result is: for \<open>n\<close> in 0..3 what \<open>int()\<close> makes of the first 3 characters of
  \<open>v\<close>; for \<open>n\<close> in 4, 5, 18 of the first 4; for \<open>n\<close> in 6 and 10..17 of the first
  2; for \<open>n = 99\<close> the list of the integers of the white-space separated tokens of
  \<open>v\<close>, in their order (and a \<open>ValueError\<close> exactly when a token is not an integer);
  for any other \<open>n\<close> the string \<open>n=\<close> followed by the selector, with no exception
  raised. The heap is the one the transaction left.
\<close>

theorem meas_decodes_by_selector:
  assumes "snd (self_transact h self (''MEAS'' @ format_zero 2 n @ ''?'' @ [LF])) = Inr v"
    and "list_all is_ascii v"
    and "h1 = fst (self_transact h self (''MEAS'' @ format_zero 2 n @ ''?'' @ [LF]))"
  shows "(n \<in> {0, 1, 2, 3} \<longrightarrow> meas h self n = (h1, returning IntV (py_int (take 3 v))))
       \<and> (n \<in> {4, 5, 18} \<longrightarrow> meas h self n = (h1, returning IntV (py_int (take 4 v))))
       \<and> (n \<in> {6, 10, 11, 12, 13, 14, 15, 16, 17}
            \<longrightarrow> meas h self n = (h1, returning IntV (py_int (take 2 v))))
       \<and> (n = 99 \<longrightarrow> fst (meas h self n) = h1
            \<and> (\<forall>ks. snd (meas h self n) = Inr (ListV ks)
                      \<longleftrightarrow> map py_int (py_split v) = map Inr ks)
            \<and> (\<forall>e. snd (meas h self n) = Inl e \<longleftrightarrow> int_all (py_split v) = Inl e))
       \<and> (n \<notin> {0, 1, 2, 3, 4, 5, 18, 6, 10, 11, 12, 13, 14, 15, 16, 17, 99}
            \<longrightarrow> meas h self n = (h1, Inr (StrV (''n='' @ format_zero 2 n))))"
proof -
  have m: "meas h self n =
     (h1, if n \<in> {0, 1, 2, 3} then returning IntV (py_int (take 3 v))
          else if n \<in> {4, 5, 18} then returning IntV (py_int (take 4 v))
          else if n \<in> {6, 10, 11, 12, 13, 14, 15, 16, 17}
          then returning IntV (py_int (take 2 v))
          else if n = 99 then returning ListV (int_all (py_split v))
          else Inr (StrV (''n='' @ format_zero 2 n)))"
    by (subst meas_unfold) (simp only: assms(1) assms(3) sum.case)
  have a: "n \<in> {0, 1, 2, 3} \<longrightarrow> meas h self n = (h1, returning IntV (py_int (take 3 v)))"
    by (simp add: m)
  have b: "n \<in> {4, 5, 18} \<longrightarrow> meas h self n = (h1, returning IntV (py_int (take 4 v)))"
    by (auto simp add: m)
  have c: "n \<in> {6, 10, 11, 12, 13, 14, 15, 16, 17}
            \<longrightarrow> meas h self n = (h1, returning IntV (py_int (take 2 v)))"
    by (auto simp add: m)
  have d: "n = 99 \<longrightarrow> fst (meas h self n) = h1
            \<and> (\<forall>ks. snd (meas h self n) = Inr (ListV ks)
                      \<longleftrightarrow> map py_int (py_split v) = map Inr ks)
            \<and> (\<forall>e. snd (meas h self n) = Inl e \<longleftrightarrow> int_all (py_split v) = Inl e)"
  proof
    assume "n = 99"
    with m have "meas h self n = (h1, returning ListV (int_all (py_split v)))" by simp
    then show "fst (meas h self n) = h1
            \<and> (\<forall>ks. snd (meas h self n) = Inr (ListV ks)
                      \<longleftrightarrow> map py_int (py_split v) = map Inr ks)
            \<and> (\<forall>e. snd (meas h self n) = Inl e \<longleftrightarrow> int_all (py_split v) = Inl e)"
      by (simp add: returning_ListV_iff returning_Inl_iff)
  qed
  have e: "n \<notin> {0, 1, 2, 3, 4, 5, 18, 6, 10, 11, 12, 13, 14, 15, 16, 17, 99}
            \<longrightarrow> meas h self n = (h1, Inr (StrV (''n='' @ format_zero 2 n)))"
    by (simp add: m)
  show ?thesis using a b c d e by blast
qed


theorem meas_decodes_by_selector_witness:
  "snd (meas (board_sends two_devices 0 (''123 V'' @ [LF] @ ''OK'' @ [LF])) 0 0) = Inr (IntV 123)
   \<and> snd (meas (board_sends two_devices 0 (''1234 mV'' @ [LF] @ ''OK'' @ [LF])) 0 4)
       = Inr (IntV 1234)
   \<and> snd (meas (board_sends two_devices 0 (''42 C'' @ [LF] @ ''OK'' @ [LF])) 0 14)
       = Inr (IntV 42)
   \<and> snd (meas (board_sends two_devices 0 (''10 -2 300'' @ [LF] @ ''OK'' @ [LF])) 0 99)
       = Inr (ListV [10, - 2, 300])
   \<and> snd (meas (board_sends two_devices 0 (''1 V'' @ [LF] @ ''OK'' @ [LF])) 0 7)
       = Inr (StrV ''n=07'')"
proof -
  have a: "snd (meas (board_sends two_devices 0 (''123 V'' @ [LF] @ ''OK'' @ [LF])) 0 0) = Inr (IntV 123)"
  proof -
    let ?h = "board_sends two_devices 0 (''123 V'' @ [LF] @ ''OK'' @ [LF])"
    have p: "snd (self_transact ?h 0 (''MEAS'' @ format_zero 2 0 @ ''?'' @ [LF])) = Inr ''123 V''"
      by code_simp
    have q: "list_all is_ascii ''123 V''"
      by code_simp
    have r: "returning IntV (py_int (take 3 ''123 V'')) = Inr (IntV 123)"
      by code_simp
    from meas_decodes_by_selector [OF p q refl] r show ?thesis
      by simp
  qed
  have b: "snd (meas (board_sends two_devices 0 (''1234 mV'' @ [LF] @ ''OK'' @ [LF])) 0 4) = Inr (IntV 1234)"
  proof -
    let ?h = "board_sends two_devices 0 (''1234 mV'' @ [LF] @ ''OK'' @ [LF])"
    have p: "snd (self_transact ?h 0 (''MEAS'' @ format_zero 2 4 @ ''?'' @ [LF])) = Inr ''1234 mV''"
      by code_simp
    have q: "list_all is_ascii ''1234 mV''"
      by code_simp
    have r: "returning IntV (py_int (take 4 ''1234 mV'')) = Inr (IntV 1234)"
      by code_simp
    from meas_decodes_by_selector [OF p q refl] r show ?thesis
      by simp
  qed
  have c: "snd (meas (board_sends two_devices 0 (''42 C'' @ [LF] @ ''OK'' @ [LF])) 0 14) = Inr (IntV 42)"
  proof -
    let ?h = "board_sends two_devices 0 (''42 C'' @ [LF] @ ''OK'' @ [LF])"
    have p: "snd (self_transact ?h 0 (''MEAS'' @ format_zero 2 14 @ ''?'' @ [LF])) = Inr ''42 C''"
      by code_simp
    have q: "list_all is_ascii ''42 C''"
      by code_simp
    have r: "returning IntV (py_int (take 2 ''42 C'')) = Inr (IntV 42)"
      by code_simp
    from meas_decodes_by_selector [OF p q refl] r show ?thesis
      by simp
  qed
  have d: "snd (meas (board_sends two_devices 0 (''10 -2 300'' @ [LF] @ ''OK'' @ [LF])) 0 99) = Inr (ListV [10, - 2, 300])"
  proof -
    let ?h = "board_sends two_devices 0 (''10 -2 300'' @ [LF] @ ''OK'' @ [LF])"
    have p: "snd (self_transact ?h 0 (''MEAS'' @ format_zero 2 99 @ ''?'' @ [LF])) = Inr ''10 -2 300''"
      by code_simp
    have q: "list_all is_ascii ''10 -2 300''"
      by code_simp
    have r: "map py_int (py_split ''10 -2 300'') = map Inr [10, - 2, 300]"
      by code_simp
    from meas_decodes_by_selector [OF p q refl] r show ?thesis
      by simp
  qed
  have e: "snd (meas (board_sends two_devices 0 (''1 V'' @ [LF] @ ''OK'' @ [LF])) 0 7) = Inr (StrV ''n=07'')"
  proof -
    let ?h = "board_sends two_devices 0 (''1 V'' @ [LF] @ ''OK'' @ [LF])"
    have p: "snd (self_transact ?h 0 (''MEAS'' @ format_zero 2 7 @ ''?'' @ [LF])) = Inr ''1 V''"
      by code_simp
    have q: "list_all is_ascii ''1 V''"
      by code_simp
    have r: "''n='' @ format_zero 2 7 = ''n=07''"
      by code_simp
    from meas_decodes_by_selector [OF p q refl] r show ?thesis
      by simp
  qed
  show ?thesis using a b c d e by simp
qed


subsection \<open>The command log\<close>

lemma replace_char_append:
  "replace_char a b (xs @ ys) = replace_char a b xs @ replace_char a b ys"
  by (simp add: replace_char_def)

lemma replace_char_join:
  "replace_char a b (join sep xs) = join (replace_char a b sep) (map (replace_char a b) xs)"
  by (induction sep xs rule: join.induct) (simp_all add: replace_char_append, simp add: replace_char_def)

lemma cmds_self_transact: "cmds (fst (self_transact h self cmd)) = cmds h"
  by (simp add: self_transact_def split: prod.splits)

text \<open>
  C5. \<open>commands()\<close> is one step from the log to the pair of the emptied log and the
  returned string: the string holds every logged command, in order, each with its LF
  replaced by a space, joined by commas; the log is empty afterwards, the instances are
  untouched, and a second call returns the empty string, so no command is returned
  twice and none is dropped.
\<close>

theorem commands_drains_log:
  "commands h self
     = (h\<lparr>cmds := []\<rparr>, join '','' (map (replace_char LF (CHR '' '')) (cmds h)))
   \<and> cmds (fst (commands h self)) = []
   \<and> instances (fst (commands h self)) = instances h
   \<and> snd (commands (fst (commands h self)) self) = []"
proof -
  have "replace_char LF (CHR '' '') '','' = '',''"
    by (simp add: replace_char_def)
  then have "commands h self
     = (h\<lparr>cmds := []\<rparr>, join '','' (map (replace_char LF (CHR '' '')) (cmds h)))"
    by (simp add: commands_def replace_char_join)
  then show ?thesis
    by (simp add: commands_def replace_char_def)
qed

theorem commands_drains_log_witness:
  "snd (commands (two_devices\<lparr>cmds := [''PWM1S005'' @ [LF], ''PWM2S010'' @ [LF]]\<rparr>) 0)
     = ''PWM1S005 ,PWM2S010 ''
   \<and> cmds (fst (commands (two_devices\<lparr>cmds := [''PWM1S005'' @ [LF], ''PWM2S010'' @ [LF]]\<rparr>) 0))
     = []"
  using commands_drains_log
    [of "two_devices\<lparr>cmds := [''PWM1S005'' @ [LF], ''PWM2S010'' @ [LF]]\<rparr>" 0]
  by (simp add: replace_char_def)

text \<open>
  C6. For \<open>pwm(n, x)\<close> with \<open>x\<close> not \<open>None\<close> and \<open>cmd\<close> the text \<open>PWMnSxxx\<close> with
  its LF: when the transaction returns a value, the log afterwards is the log before
  with \<open>cmd\<close> appended at its end (and the call returns what \<open>int()\<close> makes of the
  value); when the transaction raises, \<open>pwm\<close> raises the same exception and the log
  is as before.
\<close>

theorem pwm_set_logs_accepted_command:
  assumes "cmd = ''PWM'' @ str_int n @ ''S'' @ format_zero 3 x @ [LF]"
  shows "(snd (self_transact h self cmd) = Inr v \<longrightarrow>
            pwm h self n (Some x)
              = ((fst (self_transact h self cmd))\<lparr>cmds := cmds h @ [cmd]\<rparr>, py_int v))
       \<and> (snd (self_transact h self cmd) = Inl e \<longrightarrow>
            pwm h self n (Some x) = (fst (self_transact h self cmd), Inl e)
            \<and> cmds (fst (pwm h self n (Some x))) = cmds h)"
proof (cases "self_transact h self cmd")
  case (Pair h1 r)
  then have "cmds h1 = cmds h"
    using cmds_self_transact [of h self cmd] by simp
  with Pair show ?thesis
    unfolding pwm_def assms by (simp add: Let_def)
qed


theorem pwm_set_logs_accepted_command_witness:
  "pwm (board_sends two_devices 0 (''5'' @ [LF] @ ''OK'' @ [LF])) 0 1 (Some 5)
     = ((fst (self_transact (board_sends two_devices 0 (''5'' @ [LF] @ ''OK'' @ [LF])) 0
                (''PWM1S005'' @ [LF])))\<lparr>cmds := [''PWM1S005'' @ [LF]]\<rparr>, Inr 5)
   \<and> snd (pwm (board_sends two_devices 0 (''ERROR'' @ [LF])) 0 1 (Some 5)) = Inl DeviceError
   \<and> cmds (fst (pwm (board_sends two_devices 0 (''ERROR'' @ [LF])) 0 1 (Some 5))) = []"
proof -
  let ?ok = "board_sends two_devices 0 (''5'' @ [LF] @ ''OK'' @ [LF])"
  let ?err = "board_sends two_devices 0 (''ERROR'' @ [LF])"
  have c: "''PWM1S005'' @ [LF] = ''PWM'' @ str_int 1 @ ''S'' @ format_zero 3 5 @ [LF]"
    by code_simp
  have p: "snd (self_transact ?ok 0 (''PWM1S005'' @ [LF])) = Inr ''5''"
    by code_simp
  have q: "snd (self_transact ?err 0 (''PWM1S005'' @ [LF])) = Inl DeviceError"
    by code_simp
  have l: "cmds ?ok = []" "cmds ?err = []"
    by code_simp+
  have i: "py_int ''5'' = Inr 5"
    by code_simp
  have a: "pwm ?ok 0 1 (Some 5)
     = ((fst (self_transact ?ok 0 (''PWM1S005'' @ [LF])))\<lparr>cmds := [''PWM1S005'' @ [LF]]\<rparr>, Inr 5)"
    using pwm_set_logs_accepted_command [OF c, of ?ok 0 "''5''"] p l i by simp
  have b: "snd (pwm ?err 0 1 (Some 5)) = Inl DeviceError
           \<and> cmds (fst (pwm ?err 0 1 (Some 5))) = []"
    using pwm_set_logs_accepted_command [OF c, of ?err 0 _ DeviceError] q l
    by (simp add: cmds_self_transact)
  show ?thesis using a b by simp
qed

text \<open>
  C1. The log is the one list of the class, not a list of each instance. With the
  instances 0 and 1 constructed on two ports, the board on port 0 accepts
  \<open>PWM1S005\<close> issued through instance 0; the command is then in the log that
  instance 1 reads, \<open>commands()\<close> on instance 1 returns it, and that call empties the
  log of instance 0 as well.
\<close>

theorem cmds_shared_by_instances:
  "snd (pwm (board_sends two_devices 0 (''5'' @ [LF] @ ''OK'' @ [LF])) 0 1 (Some 5)) = Inr 5
   \<and> cmds (fst (pwm (board_sends two_devices 0 (''5'' @ [LF] @ ''OK'' @ [LF])) 0 1 (Some 5)))
       = [''PWM1S005'' @ [LF]]
   \<and> snd (commands
            (fst (pwm (board_sends two_devices 0 (''5'' @ [LF] @ ''OK'' @ [LF])) 0 1 (Some 5))) 1)
       = ''PWM1S005 ''
   \<and> cmds (fst (commands
            (fst (pwm (board_sends two_devices 0 (''5'' @ [LF] @ ''OK'' @ [LF])) 0 1 (Some 5))) 1))
       = []"
  by code_simp


section \<open>Properties of the key decoder\<close>

lemma translate_keys_distinct: "distinct (map fst translate_table)"
  by (simp add: translate_table_def)

lemma raw_drain: "raw (drain k) = []"
proof (induction k rule: drain.induct)
  case (1 k)
  show ?case
  proof (cases "has_data k")
    case True
    with 1 show ?thesis by (subst drain.simps) simp
  next
    case False
    then show ?thesis by (subst drain.simps) (simp add: has_data_def)
  qed
qed

lemma chunk_drain: "chunk (drain k) = chunk k"
proof (induction k rule: drain.induct)
  case (1 k)
  show ?case
  proof (cases "has_data k")
    case True
    with 1 show ?thesis by (subst drain.simps) (simp add: raw_read_def has_data_def)
  next
    case False
    then show ?thesis by (subst drain.simps) simp
  qed
qed

lemma decode_one_byte:
  "(case decode_utf8 [b] of Inr s \<Rightarrow> s | Inl e \<Rightarrow> ''?'') = [if is_ascii b then b else CHR ''?'']"
  by (simp add: decode_utf8_def is_ascii_def)

lemma kb_iter_chunk: "kb_iter (k\<lparr>chunk := c\<rparr>) = kb_iter k"
  by (simp add: kb_iter_def raw_read_def)

text \<open>
  C7. One call of \<open>__next__\<close> on a buffer \<open>c\<close>. If \<open>c\<close> is a key of the table, the
  call returns the key's name and empties the buffer (\<open>chunk\<close> becomes \<open>None\<close>). If it
  is not and \<open>c\<close> starts with the escape byte, the call returns no token
  (\<open>StopIteration\<close>) and has read away every byte the source had. Otherwise, for a
  non-empty \<open>c\<close>, the call returns the one-character token of the first byte (\<open>?\<close> for
  a byte that is not ASCII), keeps the rest of \<open>c\<close> as the buffer, and, when nothing
  is left of \<open>c\<close>, refills the buffer with a read of up to 5 bytes, as \<open>__iter__\<close>
  does.
\<close>

theorem kb_next_decodes:
  assumes "chunk k = Some c"
  shows "(translate c = Some key \<longrightarrow> kb_next k = (k\<lparr>chunk := None\<rparr>, Some key))
       \<and> (translate c = None \<and> take 1 c = [ESC] \<longrightarrow>
            snd (kb_next k) = None \<and> raw (fst (kb_next k)) = [])
       \<and> (translate c = None \<and> take 1 c \<noteq> [ESC] \<and> c \<noteq> [] \<longrightarrow>
            snd (kb_next k) = Some [if is_ascii (hd c) then hd c else CHR ''?'']
            \<and> fst (kb_next k) = (if tl c = [] then kb_iter k else k\<lparr>chunk := Some (tl c)\<rparr>))"
proof -
  have a: "translate c = Some key \<longrightarrow> kb_next k = (k\<lparr>chunk := None\<rparr>, Some key)"
    using assms by (simp add: kb_next_def)
  have b: "translate c = None \<and> take 1 c = [ESC] \<longrightarrow>
            snd (kb_next k) = None \<and> raw (fst (kb_next k)) = []"
    using assms by (simp add: kb_next_def raw_drain)
  have d: "translate c = None \<and> take 1 c \<noteq> [ESC] \<and> c \<noteq> [] \<longrightarrow>
            snd (kb_next k) = Some [if is_ascii (hd c) then hd c else CHR ''?'']
            \<and> fst (kb_next k) = (if tl c = [] then kb_iter k else k\<lparr>chunk := Some (tl c)\<rparr>)"
  proof (intro impI, elim conjE)
    assume t: "translate c = None" and e: "take 1 c \<noteq> [ESC]" and n: "c \<noteq> []"
    from n obtain x xs where c: "c = x # xs" by (cases c) auto
    have i: "kb_iter (k\<lparr>chunk := Some []\<rparr>) = kb_iter k" by (rule kb_iter_chunk)
    show "snd (kb_next k) = Some [if is_ascii (hd c) then hd c else CHR ''?'']
            \<and> fst (kb_next k) = (if tl c = [] then kb_iter k else k\<lparr>chunk := Some (tl c)\<rparr>)"
      using assms t e i unfolding c
      by (simp add: kb_next_def decode_one_byte Let_def kb_iter_def split: prod.splits)
  qed
  show ?thesis using a b d by blast
qed


theorem kb_next_decodes_witness:
  "kb_next \<lparr>chunk = Some (ESC # ''[A''), raw = []\<rparr> = (\<lparr>chunk = None, raw = []\<rparr>, Some ''UP'')
   \<and> kb_next (kb_iter \<lparr>chunk = None, raw = ''a''\<rparr>) = (\<lparr>chunk = None, raw = []\<rparr>, Some ''a'')
   \<and> kb_next \<lparr>chunk = Some ''ab'', raw = ''c''\<rparr> = (\<lparr>chunk = Some ''b'', raw = ''c''\<rparr>, Some ''a'')
   \<and> snd (kb_next (kb_iter \<lparr>chunk = None, raw = ESC # ''ZZZZZZZ''\<rparr>)) = None
   \<and> raw (fst (kb_next (kb_iter \<lparr>chunk = None, raw = ESC # ''ZZZZZZZ''\<rparr>))) = []"
proof -
  have a: "kb_next \<lparr>chunk = Some (ESC # ''[A''), raw = []\<rparr>
             = (\<lparr>chunk = None, raw = []\<rparr>, Some ''UP'')"
  proof -
    have "translate (ESC # ''[A'') = Some ''UP''" by code_simp
    with kb_next_decodes [of "\<lparr>chunk = Some (ESC # ''[A''), raw = []\<rparr>" "ESC # ''[A''" "''UP''"]
    show ?thesis by simp
  qed
  have b: "kb_next (kb_iter \<lparr>chunk = None, raw = ''a''\<rparr>)
             = (\<lparr>chunk = None, raw = []\<rparr>, Some ''a'')"
  proof -
    have i: "kb_iter \<lparr>chunk = None, raw = ''a''\<rparr> = \<lparr>chunk = Some ''a'', raw = []\<rparr>"
      by (simp add: kb_iter_def raw_read_def)
    have j: "kb_iter \<lparr>chunk = Some ''a'', raw = []\<rparr> = \<lparr>chunk = None, raw = []\<rparr>"
      by (simp add: kb_iter_def raw_read_def)
    have t: "translate ''a'' = None" by code_simp
    have u: "is_ascii (CHR ''a'')" by code_simp
    from kb_next_decodes [of "\<lparr>chunk = Some ''a'', raw = []\<rparr>" "''a''"] t u i j
    show ?thesis by (simp add: prod_eq_iff)
  qed
  have c: "kb_next \<lparr>chunk = Some ''ab'', raw = ''c''\<rparr>
             = (\<lparr>chunk = Some ''b'', raw = ''c''\<rparr>, Some ''a'')"
  proof -
    have t: "translate ''ab'' = None" by code_simp
    have u: "is_ascii (CHR ''a'')" by code_simp
    from kb_next_decodes [of "\<lparr>chunk = Some ''ab'', raw = ''c''\<rparr>" "''ab''"] t u
    show ?thesis by (simp add: prod_eq_iff)
  qed
  have d: "snd (kb_next (kb_iter \<lparr>chunk = None, raw = ESC # ''ZZZZZZZ''\<rparr>)) = None
           \<and> raw (fst (kb_next (kb_iter \<lparr>chunk = None, raw = ESC # ''ZZZZZZZ''\<rparr>))) = []"
  proof -
    have i: "kb_iter \<lparr>chunk = None, raw = ESC # ''ZZZZZZZ''\<rparr>
               = \<lparr>chunk = Some (ESC # ''ZZZZ''), raw = ''ZZZ''\<rparr>"
      by (simp add: kb_iter_def raw_read_def)
    have t: "translate (ESC # ''ZZZZ'') = None" by code_simp
    from kb_next_decodes [of "\<lparr>chunk = Some (ESC # ''ZZZZ''), raw = ''ZZZ''\<rparr>" "ESC # ''ZZZZ''"] t i
    show ?thesis by simp
  qed
  show ?thesis using a b c d by simp
qed


section \<open>Properties of the input manager\<close>

lemma process_input_returns_active:
  "snd (process_input c key) = active (fst (process_input c key))"
  by (simp add: process_input_def Let_def)


lemma call_process_input_frame:
  "consumers (fst (call_process_input proc h c key)) = consumers h"
  "class_active_consumer (fst (call_process_input proc h c key)) = class_active_consumer h"
  "inst_active_consumer (fst (call_process_input proc h c key)) = inst_active_consumer h"
  "calls (fst (call_process_input proc h c key))
     = calls h @ [(c, key, snd (call_process_input proc h c key))]"
  by (simp_all add: call_process_input_def split: prod.splits)

lemma get_active_consumer_cong:
  "class_active_consumer h1 = class_active_consumer h \<Longrightarrow>
   inst_active_consumer h1 = inst_active_consumer h \<Longrightarrow>
   get_active_consumer h1 self = get_active_consumer h self"
  by (simp add: get_active_consumer_def split: option.splits)

lemma get_set_active_consumer:
  "get_active_consumer (set_active_consumer h self v) r =
     (if r = self then v else get_active_consumer h r)"
  by (simp add: get_active_consumer_def set_active_consumer_def split: option.splits)

lemma calls_set_active_consumer: "calls (set_active_consumer h self v) = calls h"
  by (simp add: set_active_consumer_def)

lemma offer_result:
  "offer proc h cs key = (h1, found) \<Longrightarrow>
     consumers h1 = consumers h
     \<and> class_active_consumer h1 = class_active_consumer h
     \<and> inst_active_consumer h1 = inst_active_consumer h
     \<and> ((found = None \<and> calls h1 = calls h @ map (\<lambda>x. (x, key, False)) cs)
        \<or> (\<exists>pre c post. cs = pre @ c # post \<and> found = Some c
             \<and> calls h1 = calls h @ map (\<lambda>x. (x, key, False)) pre @ [(c, key, True)]))"
proof (induction cs arbitrary: h)
  case Nil
  then show ?case by simp
next
  case (Cons a cs)
  obtain h2 r where c: "call_process_input proc h a key = (h2, r)"
    by (cases "call_process_input proc h a key")
  have f: "consumers h2 = consumers h" "class_active_consumer h2 = class_active_consumer h"
    "inst_active_consumer h2 = inst_active_consumer h" "calls h2 = calls h @ [(a, key, r)]"
    using call_process_input_frame [of proc h a key] c by simp_all
  show ?case
  proof (cases r)
    case True
    with Cons.prems c have "h1 = h2" "found = Some a" by simp_all
    with f True have "a # cs = [] @ a # cs \<and> found = Some a
       \<and> calls h1 = calls h @ map (\<lambda>x. (x, key, False)) [] @ [(a, key, True)]"
      by simp
    then have "\<exists>pre c post. a # cs = pre @ c # post \<and> found = Some c
             \<and> calls h1 = calls h @ map (\<lambda>x. (x, key, False)) pre @ [(c, key, True)]"
      by blast
    with f \<open>h1 = h2\<close> show ?thesis by simp
  next
    case False
    with Cons.prems c have o: "offer proc h2 cs key = (h1, found)" by simp
    note ih = Cons.IH [OF o]
    from ih have g: "consumers h1 = consumers h"
      "class_active_consumer h1 = class_active_consumer h"
      "inst_active_consumer h1 = inst_active_consumer h"
      using f by simp_all
    from ih consider
      (none) "found = None" "calls h1 = calls h2 @ map (\<lambda>x. (x, key, False)) cs"
      | (some) pre c post where "cs = pre @ c # post" "found = Some c"
          "calls h1 = calls h2 @ map (\<lambda>x. (x, key, False)) pre @ [(c, key, True)]"
      by blast
    then show ?thesis
    proof cases
      case none
      with f False g show ?thesis by simp
    next
      case some
      with f False have "a # cs = (a # pre) @ c # post \<and> found = Some c
         \<and> calls h1 = calls h @ map (\<lambda>x. (x, key, False)) (a # pre) @ [(c, key, True)]"
        by simp
      then have "\<exists>pre c post. a # cs = pre @ c # post \<and> found = Some c
             \<and> calls h1 = calls h @ map (\<lambda>x. (x, key, False)) pre @ [(c, key, True)]"
        by blast
      with g show ?thesis by simp
    qed
  qed
qed

lemma reports_active_snoc:
  "reports_active (tr @ [(c, k, r)]) x = (if x = c then r else reports_active tr x)"
  by (simp add: reports_active_def Let_def)

lemma reports_active_offered:
  "reports_active (tr @ map (\<lambda>x. (x, key, False)) pre) x =
     (if x \<in> set pre then False else reports_active tr x)"
proof (induction pre rule: rev_induct)
  case Nil
  then show ?case by simp
next
  case (snoc a pre)
  have "reports_active ((tr @ map (\<lambda>x. (x, key, False)) pre) @ [(a, key, False)]) x
          = (if x = a then False else reports_active (tr @ map (\<lambda>x. (x, key, False)) pre) x)"
    by (rule reports_active_snoc)
  with snoc show ?case by simp
qed


lemma input_idle:
  assumes "get_active_consumer h self = None"
  shows "(calls (input proc h self key) = calls h @ map (\<lambda>x. (x, key, False)) (consumers h)
            \<and> get_active_consumer (input proc h self key) self = None)
         \<or> (\<exists>pre c post. consumers h = pre @ c # post
              \<and> calls (input proc h self key)
                   = calls h @ map (\<lambda>x. (x, key, False)) pre @ [(c, key, True)]
              \<and> get_active_consumer (input proc h self key) self = Some c)"
proof -
  obtain h1 found where o: "offer proc h (consumers h) key = (h1, found)"
    by (cases "offer proc h (consumers h) key")
  note r = offer_result [OF o]
  from r have g: "get_active_consumer h1 self = None"
    using assms get_active_consumer_cong [of h1 h self] by simp
  from r consider
    (none) "found = None" "calls h1 = calls h @ map (\<lambda>x. (x, key, False)) (consumers h)"
    | (some) pre c post where "consumers h = pre @ c # post" "found = Some c"
        "calls h1 = calls h @ map (\<lambda>x. (x, key, False)) pre @ [(c, key, True)]"
    by blast
  then show ?thesis
  proof cases
    case none
    with assms o g have "input proc h self key = h1"
      by (simp add: input_def)
    with none g show ?thesis by simp
  next
    case some
    with assms o have "input proc h self key = set_active_consumer h1 self (Some c)"
      by (simp add: input_def)
    with some show ?thesis
      by (auto simp add: get_set_active_consumer calls_set_active_consumer)
  qed
qed

lemma input_busy:
  assumes "get_active_consumer h self = Some a"
  shows "\<exists>r. calls (input proc h self key) = calls h @ [(a, key, r)]
           \<and> get_active_consumer (input proc h self key) self = (if r then Some a else None)"
proof -
  obtain h1 r where c: "call_process_input proc h a key = (h1, r)"
    by (cases "call_process_input proc h a key")
  have f: "class_active_consumer h1 = class_active_consumer h"
    "inst_active_consumer h1 = inst_active_consumer h" "calls h1 = calls h @ [(a, key, r)]"
    using call_process_input_frame [of proc h a key] c by simp_all
  then have g: "get_active_consumer h1 self = Some a"
    using assms get_active_consumer_cong [of h1 h self] by simp
  have "input proc h self key = (if \<not> r then set_active_consumer h1 self None else h1)"
    using assms c by (simp add: input_def)
  with f g have "calls (input proc h self key) = calls h @ [(a, key, r)]
           \<and> get_active_consumer (input proc h self key) self = (if r then Some a else None)"
    by (simp add: get_set_active_consumer calls_set_active_consumer)
  then show ?thesis by blast
qed

lemma exclusive_input:
  assumes "exclusive h self"
  shows "exclusive (input proc h self key) self"
proof (cases "get_active_consumer h self")
  case None
  with assms have q: "\<And>x. \<not> reports_active (calls h) x"
    by (auto simp add: exclusive_def)
  from input_idle [OF None, of proc key] show ?thesis
  proof (elim disjE conjE exE)
    assume "calls (input proc h self key) = calls h @ map (\<lambda>x. (x, key, False)) (consumers h)"
    then show ?thesis
      by (simp add: exclusive_def reports_active_offered q)
  next
    fix pre c post
    assume "calls (input proc h self key)
              = calls h @ map (\<lambda>x. (x, key, False)) pre @ [(c, key, True)]"
      and "get_active_consumer (input proc h self key) self = Some c"
    moreover have "\<And>x. reports_active
        ((calls h @ map (\<lambda>x. (x, key, False)) pre) @ [(c, key, True)]) x = (x = c)"
      by (simp only: reports_active_snoc) (simp add: reports_active_offered q)
    ultimately show ?thesis
      by (simp add: exclusive_def)
  qed
next
  case (Some a)
  with assms have q: "\<And>x. reports_active (calls h) x \<Longrightarrow> x = a"
    by (auto simp add: exclusive_def)
  from input_busy [OF Some, of proc key] obtain r where
    "calls (input proc h self key) = calls h @ [(a, key, r)]"
    "get_active_consumer (input proc h self key) self = (if r then Some a else None)"
    by blast
  then show ?thesis
    using q by (auto simp add: exclusive_def reports_active_snoc)
qed

lemma exclusive_inputs:
  "exclusive h self \<Longrightarrow> exclusive (inputs proc h self keys) self"
  unfolding inputs_def
  by (induction keys arbitrary: h) (simp_all add: exclusive_input)

lemma exclusive_at_most_one:
  assumes "exclusive h self" and "reports_active (calls h) c" and "reports_active (calls h) c'"
  shows "c = c'"
proof -
  from assms(1,2) have "get_active_consumer h self = Some c"
    unfolding exclusive_def by blast
  moreover from assms(1,3) have "get_active_consumer h self = Some c'"
    unfolding exclusive_def by blast
  ultimately show ?thesis by simp
qed


text \<open>
  C8. Dispatch on a manager. With no active consumer, the key is offered to the
  registered consumers in registration order: either every consumer is called and
  returns \<open>False\<close>, and the slot stays empty, or the calls stop at the first consumer
  that returns \<open>True\<close>, which becomes the active consumer, and no consumer after it is
  called. With an active consumer, exactly that consumer is called, and the slot is
  cleared when it returns \<open>False\<close>. Over any run of keys through the manager, a
  consumer whose latest \<open>process_input\<close> returned \<open>True\<close> is the one in the slot, so
  at most one consumer is active at any time.
\<close>

theorem input_mutual_exclusion:
  "(get_active_consumer h self = None \<longrightarrow>
      (calls (input proc h self key) = calls h @ map (\<lambda>x. (x, key, False)) (consumers h)
         \<and> get_active_consumer (input proc h self key) self = None)
      \<or> (\<exists>pre c post. consumers h = pre @ c # post
            \<and> calls (input proc h self key)
                 = calls h @ map (\<lambda>x. (x, key, False)) pre @ [(c, key, True)]
            \<and> get_active_consumer (input proc h self key) self = Some c))
   \<and> (get_active_consumer h self = Some a \<longrightarrow>
        (\<exists>r. calls (input proc h self key) = calls h @ [(a, key, r)]
           \<and> get_active_consumer (input proc h self key) self = (if r then Some a else None)))
   \<and> (exclusive h self \<longrightarrow>
        exclusive (inputs proc h self keys) self
        \<and> (\<forall>c c'. reports_active (calls (inputs proc h self keys)) c
                  \<and> reports_active (calls (inputs proc h self keys)) c' \<longrightarrow> c = c'))"
proof (intro conjI impI allI)
  assume "get_active_consumer h self = None"
  then show "(calls (input proc h self key) = calls h @ map (\<lambda>x. (x, key, False)) (consumers h)
         \<and> get_active_consumer (input proc h self key) self = None)
      \<or> (\<exists>pre c post. consumers h = pre @ c # post
            \<and> calls (input proc h self key)
                 = calls h @ map (\<lambda>x. (x, key, False)) pre @ [(c, key, True)]
            \<and> get_active_consumer (input proc h self key) self = Some c)"
    by (rule input_idle)
next
  assume "get_active_consumer h self = Some a"
  then show "\<exists>r. calls (input proc h self key) = calls h @ [(a, key, r)]
           \<and> get_active_consumer (input proc h self key) self = (if r then Some a else None)"
    by (rule input_busy)
next
  assume "exclusive h self"
  then show "exclusive (inputs proc h self keys) self"
    by (rule exclusive_inputs)
next
  fix c c'
  assume "exclusive h self"
    and "reports_active (calls (inputs proc h self keys)) c
         \<and> reports_active (calls (inputs proc h self keys)) c'"
  then show "c = c'"
    using exclusive_at_most_one [of "inputs proc h self keys" self c c']
      exclusive_inputs [of h self proc keys] by simp
qed

theorem input_mutual_exclusion_witness:
  "get_active_consumer two_consumers 0 = None
   \<and> calls (input process_input two_consumers 0 ''F2'') = [(0, ''F2'', False), (1, ''F2'', True)]
   \<and> get_active_consumer (input process_input two_consumers 0 ''F2'') 0 = Some 1
   \<and> calls (input process_input (input process_input two_consumers 0 ''F2'') 0 ''ENTER'')
       = [(0, ''F2'', False), (1, ''F2'', True), (1, ''ENTER'', False)]
   \<and> get_active_consumer
        (input process_input (input process_input two_consumers 0 ''F2'') 0 ''ENTER'') 0 = None
   \<and> exclusive two_consumers 0
   \<and> exclusive (inputs process_input two_consumers 0 [''F1'', ''5'', ''F1'', ''F2'']) 0"
proof -
  let ?h1 = "input process_input two_consumers 0 ''F2''"
  let ?h2 = "input process_input ?h1 0 ''ENTER''"
  have idle: "get_active_consumer two_consumers 0 = None"
    by code_simp
  have cs: "consumers two_consumers = [0, 1]" "calls two_consumers = []"
    by code_simp+
  have c1: "calls ?h1 = [(0, ''F2'', False), (1, ''F2'', True)]"
    by code_simp
  have a1: "get_active_consumer ?h1 0 = Some 1"
    using input_mutual_exclusion [of two_consumers 0 process_input "''F2''"] idle cs c1
    by (auto simp add: Cons_eq_append_conv)
  have c2: "calls ?h2 = [(0, ''F2'', False), (1, ''F2'', True), (1, ''ENTER'', False)]"
    by code_simp
  have a2: "get_active_consumer ?h2 0 = None"
  proof -
    from input_mutual_exclusion [of ?h1 0 process_input "''ENTER''" 1] a1
    obtain r where r: "calls ?h2 = calls ?h1 @ [(1, ''ENTER'', r)]"
      "get_active_consumer ?h2 0 = (if r then Some 1 else None)"
      by blast
    from r(1) c1 c2 have "\<not> r" by simp
    with r(2) show ?thesis by simp
  qed
  have e0: "exclusive two_consumers 0"
    by (simp add: exclusive_def cs reports_active_def)
  have e1: "exclusive (inputs process_input two_consumers 0 [''F1'', ''5'', ''F1'', ''F2'']) 0"
    using input_mutual_exclusion [of two_consumers 0 process_input _ _ "[''F1'', ''5'', ''F1'', ''F2'']"]
      e0 by blast
  show ?thesis using idle c1 a1 c2 a2 e0 e1 by simp
qed


subsection \<open>Several managers\<close>

lemma call_process_input_consumers_update:
  "call_process_input proc (h\<lparr>consumers := cs\<rparr>) c key
     = ((fst (call_process_input proc h c key))\<lparr>consumers := cs\<rparr>,
        snd (call_process_input proc h c key))"
  by (simp add: call_process_input_def split: prod.splits)

lemma offer_consumers_update:
  "offer proc (h\<lparr>consumers := cs\<rparr>) xs key
     = ((fst (offer proc h xs key))\<lparr>consumers := cs\<rparr>, snd (offer proc h xs key))"
proof (induction xs arbitrary: h)
  case Nil
  then show ?case by simp
next
  case (Cons a xs)
  obtain h2 r where c: "call_process_input proc h a key = (h2, r)"
    by (cases "call_process_input proc h a key")
  then have "call_process_input proc (h\<lparr>consumers := cs\<rparr>) a key = (h2\<lparr>consumers := cs\<rparr>, r)"
    by (simp add: call_process_input_consumers_update)
  with c Cons.IH [of h2] show ?case by simp
qed

lemma offer_append:
  "offer proc h (xs @ ys) key =
     (case offer proc h xs key of
        (h1, None) \<Rightarrow> offer proc h1 ys key
      | (h1, Some a) \<Rightarrow> (h1, Some a))"
proof (induction xs arbitrary: h)
  case Nil
  then show ?case by simp
next
  case (Cons a xs)
  obtain h2 r where c: "call_process_input proc h a key = (h2, r)"
    by (cases "call_process_input proc h a key")
  with Cons.IH [of h2] show ?case by simp
qed

lemma input_other_manager:
  assumes "r1 \<noteq> r2"
  shows "get_active_consumer (input proc h r1 key) r2 = get_active_consumer h r2"
proof (cases "get_active_consumer h r1")
  case None
  obtain h1 found where o: "offer proc h (consumers h) key = (h1, found)"
    by (cases "offer proc h (consumers h) key")
  from offer_result [OF o] have g: "get_active_consumer h1 r2 = get_active_consumer h r2"
    using get_active_consumer_cong [of h1 h r2] by simp
  show ?thesis
    using None o g assms
    by (cases found) (simp_all add: input_def get_set_active_consumer)
next
  case (Some a)
  obtain h1 r where c: "call_process_input proc h a key = (h1, r)"
    by (cases "call_process_input proc h a key")
  have "get_active_consumer h1 r2 = get_active_consumer h r2"
    using call_process_input_frame [of proc h a key] c get_active_consumer_cong [of h1 h r2]
    by simp
  then show ?thesis
    using Some c assms by (simp add: input_def get_set_active_consumer)
qed

lemma input_after_add:
  assumes "get_active_consumer h r2 = None"
    and "snd (offer proc h (consumers h) key) = None"
  shows "\<exists>r. calls (input proc (add h r1 c) r2 key)
               = calls h @ map (\<lambda>x. (x, key, False)) (consumers h) @ [(c, key, r)]"
proof -
  let ?h' = "add h r1 c"
  obtain h1 where o: "offer proc h (consumers h) key = (h1, None)"
    using assms(2) by (cases "offer proc h (consumers h) key") simp
  from offer_result [OF o]
  have k: "calls h1 = calls h @ map (\<lambda>x. (x, key, False)) (consumers h)"
    by simp
  let ?h2 = "h1\<lparr>consumers := consumers h @ [c]\<rparr>"
  have o': "offer proc ?h' (consumers h) key = (?h2, None)"
    using o by (simp add: add_def offer_consumers_update)
  obtain h3 r where c: "call_process_input proc ?h2 c key = (h3, r)"
    by (cases "call_process_input proc ?h2 c key")
  have k3: "calls h3 = calls ?h2 @ [(c, key, r)]"
    using call_process_input_frame(4) [of proc ?h2 c key] c by simp
  have o2: "offer proc ?h' (consumers ?h') key = (h3, if r then Some c else None)"
    using o' c by (simp add: add_def offer_append)
  have a: "get_active_consumer ?h' r2 = None"
    using assms(1) by (simp add: add_def get_active_consumer_def split: option.splits)
  have "calls (input proc ?h' r2 key) = calls h3"
    using a o2 by (simp add: input_def calls_set_active_consumer)
  with k k3 show ?thesis by simp
qed

text \<open>
  C10, as the code has it. The list of registered consumers is the one list of the
  class: \<open>add\<close> through any manager appends to it, and a key dispatched through a
  manager \<open>r2\<close> with no active consumer, which none of the consumers registered before
  accepts, is then offered to the consumer \<open>c\<close> that was registered through the
  manager \<open>r1\<close>. The active-consumer slot is not shared: dispatching through \<open>r1\<close>
  leaves the slot that any other manager \<open>r2\<close> reads as it was.
\<close>

theorem consumers_shared_active_consumer_not:
  "consumers (add h r1 c) = consumers h @ [c]
   \<and> (get_active_consumer h r2 = None \<and> snd (offer proc h (consumers h) key) = None \<longrightarrow>
        (\<exists>r. calls (input proc (add h r1 c) r2 key)
               = calls h @ map (\<lambda>x. (x, key, False)) (consumers h) @ [(c, key, r)]))
   \<and> (r1 \<noteq> r2 \<longrightarrow>
        get_active_consumer (input proc h r1 key) r2 = get_active_consumer h r2)"
  using input_after_add [of h r2 proc key r1 c] input_other_manager [of r1 r2 proc h key]
  by (simp add: add_def)

theorem consumers_shared_active_consumer_not_witness:
  "consumers (add two_consumers 1 2) = [0, 1, 2]
   \<and> calls (input process_input (add two_consumers 1 2) 0 ''x'')
       = [(0, ''x'', False), (1, ''x'', False), (2, ''x'', False)]
   \<and> get_active_consumer (input process_input two_consumers 0 ''F1'') 1 = None"
proof -
  have cs: "consumers two_consumers = [0, 1]" "calls two_consumers = []"
    by code_simp+
  have i: "get_active_consumer two_consumers 0 = None" "get_active_consumer two_consumers 1 = None"
    by code_simp+
  have n: "snd (offer process_input two_consumers (consumers two_consumers) ''x'') = None"
    by code_simp
  have e: "calls (input process_input (add two_consumers 1 2) 0 ''x'')
       = [(0, ''x'', False), (1, ''x'', False), (2, ''x'', False)]"
    by code_simp
  have a: "consumers (add two_consumers 1 2) = [0, 1, 2]"
    using consumers_shared_active_consumer_not [of two_consumers 1 2] cs by simp
  have b: "\<exists>r. calls (input process_input (add two_consumers 1 2) 0 ''x'')
               = calls two_consumers @ map (\<lambda>x. (x, ''x'', False)) (consumers two_consumers)
                 @ [(2, ''x'', r)]"
    using consumers_shared_active_consumer_not [of two_consumers 1 2 0 process_input "''x''"] i n
    by blast
  have c: "get_active_consumer (input process_input two_consumers 0 ''F1'') 1 = None"
    using consumers_shared_active_consumer_not [of two_consumers 0 _ 1 process_input "''F1''"] i
    by simp
  show ?thesis using a b e c by simp
qed

text \<open>
  C10, as stated, fails on the slot: after the manager 0 has dispatched \<open>F1\<close> and
  activated the consumer 0, the manager 0 reads the consumer 0 as active and the
  manager 1 still reads \<open>None\<close>.
\<close>

theorem active_consumer_not_shared:
  "get_active_consumer (input process_input two_consumers 0 ''F1'') 0 = Some 0
   \<and> get_active_consumer (input process_input two_consumers 0 ''F1'') 1 = None"
  by code_simp


end
